theory Spec2Isabelle
  imports Complex_Main
begin

section \<open>The run state of \<open>fetchAndProcess\<close> (factory-queue.js)\<close>

text \<open>
  \<open>fetchAndProcess\<close> keeps its whole state in closure variables and in the two option
  objects \<open>_fetchOptions\<close> and \<open>_queueOptions\<close>. Everything else happens in callbacks of
  promises (library Q) and of one interval timer. The model is a record of those variables
  together with the operations that are in flight, and one function per callback; a run is a
  sequence of callback executions.

  JavaScript values. \<open>total\<close> and \<open>maxLimit\<close> hold \<open>false\<close> or a number, and \<open>_timeEnd\<close>
  holds \<open>false\<close> or a timestamp: they are \<open>int option\<close> with \<open>None\<close> for \<open>false\<close>. A test
  \<open>if (x)\<close> is \<open>truthy x\<close> (a number is truthy unless it is 0); a comparison or a product
  converts \<open>false\<close> to 0, which is \<open>num\<close>. Numbers are integers.
\<close>

definition truthy :: "int option \<Rightarrow> bool" where
  "truthy v = (case v of None \<Rightarrow> False | Some n \<Rightarrow> n \<noteq> 0)"

definition num :: "int option \<Rightarrow> int" where
  "num v = (case v of None \<Rightarrow> 0 | Some n \<Rightarrow> n)"

text \<open>
  The variable \<open>_err\<close>: \<open>false\<close> at the start, later whatever reason a rejected promise
  carried. \<open>Falsy\<close> stands for \<open>false\<close> and for a reason that is itself falsy (a capability
  may reject with no reason at all); \<open>SourceEmpty\<close> is the object
  \<open>{ error: "Source is empty." }\<close> of line 166; \<open>Reason e\<close> is any other, truthy, reason.
\<close>

datatype 'e failure = Falsy | SourceEmpty | Reason 'e

definition failed :: "'e failure \<Rightarrow> bool" where
  "failed e = (e \<noteq> Falsy)"

text \<open>What the fetch capability resolves with: \<open>{ total, items }\<close>.\<close>

record 'a response =
  resp_total :: int
  items :: "'a list"

text \<open>The argument of \<open>deferred.notify\<close> (line 148).\<close>

record progress =
  at_offset :: int
  queueSize :: nat
  at_processed :: int

text \<open>
  How the promise returned to the caller settles: \<open>deferred.resolve()\<close> of the empty array
  (line 214), the three settlements of the interval callback (lines 96, 99, 103).
\<close>

datatype 'e outcome =
    ResolvedEmpty
  | Done "int option" int real
  | Rejected "'e failure" "int option" int real
  | Timeout

text \<open>The first argument of \<open>fetchAndProcess\<close>: a function, or an array of items.\<close>

datatype 'a source = Fetcher | Items "'a list"

text \<open>
  The two option objects after \<open>_.extend\<close> (lines 40 to 78), fields prefixed by the object
  they belong to. \<open>fetchTimeout\<close> and \<open>processTimeout\<close> only delay the resolution of a
  wrapper promise, whose callback runs as an event of its own in any case, so they are left
  out.
\<close>

record options =
  fo_limit :: int
  fo_offset :: int
  fo_maxLimit :: "int option"
  fo_paged :: bool
  fo_total :: "int option"
  qo_requestLimit :: int
  qo_processingLimit :: int
  qo_queueLimit :: int
  qo_maxRuntimeSeconds :: int
  qo_processed :: int

definition default_options :: options where
  "default_options =
     \<lparr> fo_limit = 50, fo_offset = 0, fo_maxLimit = None, fo_paged = False, fo_total = None,
       qo_requestLimit = 1, qo_processingLimit = 1, qo_queueLimit = 1000,
       qo_maxRuntimeSeconds = 15000, qo_processed = 0 \<rparr>"

text \<open>
  The state. Besides the variables of the source it holds the promises that are pending:
  \<^item> \<open>fetchCalls\<close>: calls \<open>_fetchFunc(limit, offset, _)\<close> that have not settled;
  \<^item> \<open>fetchResolved\<close>: wrapper promises of \<open>fetch\<close> resolved with items, whose callback
    in \<open>tryFetch\<close> (lines 119 to 127) has not run yet;
  \<^item> \<open>fetchRejected\<close>: wrapper promises rejected at line 166, whose callback (line 129)
    has not run yet;
  \<^item> \<open>procCalls\<close>: calls \<open>_processFunc(item)\<close> that have not settled;
  \<^item> \<open>procResolved\<close>: wrapper promises of \<open>process\<close> that are resolved, or will be by the
    timer of line 202, whose callback in \<open>tryProcess\<close> (lines 146 to 151) has not run yet;
  \<^item> \<open>watching\<close>: the interval \<open>completeCheck\<close> is set and not cleared;
  \<^item> \<open>outcome\<close>: the settlement of the promise returned to the caller, if any;
  \<^item> \<open>notifications\<close>: the progress values the caller has been notified of.
\<close>

record ('a, 'e) state = options +
  queue :: "'a list"
  timeStart :: int
  timeEnd :: "int option"
  requestsConcurrent :: int
  processingConcurrent :: int
  err :: "'e failure"
  isFunction :: bool
  fetchCalls :: "(int \<times> int) list"
  fetchResolved :: "'a list list"
  fetchRejected :: nat
  procCalls :: "'a list"
  procResolved :: nat
  watching :: bool
  outcome :: "'e outcome option"
  notifications :: "progress list"

definition drop_nth :: "nat \<Rightarrow> 'b list \<Rightarrow> 'b list" where
  "drop_nth i xs = take i xs @ drop (Suc i) xs"

section \<open>The schedulers\<close>

text \<open>
  \<open>tryFetch\<close>, lines 108 to 136. \<open>now\<close> is the value of \<open>Date.now()\<close> during the callback
  that runs the scheduler. The call \<open>fetch(limit, offset)\<close> calls \<open>_fetchFunc\<close> at once, with
  the offset of before the increment of line 134.
\<close>

function tryFetch :: "int \<Rightarrow> ('a, 'e) state \<Rightarrow> ('a, 'e) state" where
  "tryFetch now s =
     (if truthy (fo_total s) \<and> qo_processed s = num (fo_total s) then s\<lparr>timeEnd := Some now\<rparr>
      else if failed (err s) then s
      else if requestsConcurrent s \<ge> qo_requestLimit s then s
      else if int (length (queue s)) + fo_limit s * (requestsConcurrent s + 1) \<ge> qo_queueLimit s
        then s
      else if truthy (fo_total s) \<and>
              fo_offset s \<ge> (if fo_paged s then num (fo_total s) + 1 else num (fo_total s))
        then s
      else if truthy (fo_maxLimit s) \<and> fo_offset s \<ge> num (fo_maxLimit s) then s
      else tryFetch now
             (s\<lparr>requestsConcurrent := requestsConcurrent s + 1,
                fetchCalls := fetchCalls s @ [(fo_limit s, fo_offset s)],
                fo_offset := fo_offset s + (if fo_paged s then 1 else fo_limit s)\<rparr>))"
  by pat_completeness auto
termination
  by (relation "measure (\<lambda>(now, s). nat (qo_requestLimit s - requestsConcurrent s))") auto

text \<open>\<open>tryProcess\<close>, lines 138 to 159; \<open>_queue.shift()\<close> takes the head of the queue.\<close>

function tryProcess :: "int \<Rightarrow> ('a, 'e) state \<Rightarrow> ('a, 'e) state" where
  "tryProcess now s =
     (if truthy (fo_total s) \<and> qo_processed s = num (fo_total s) then s\<lparr>timeEnd := Some now\<rparr>
      else if failed (err s) then s
      else if queue s = [] then s
      else if processingConcurrent s \<ge> qo_processingLimit s then s
      else tryProcess now
             (s\<lparr>processingConcurrent := processingConcurrent s + 1,
                procCalls := procCalls s @ [hd (queue s)],
                queue := tl (queue s)\<rparr>))"
  by pat_completeness auto
termination
  by (relation "measure (\<lambda>(now, s). length (queue s))") auto

declare tryFetch.simps [simp del] tryProcess.simps [simp del]

section \<open>The callbacks\<close>

text \<open>
  The callback of \<open>_fetchFunc\<close>'s promise in \<open>fetch\<close>, lines 165 to 177, for the pending
  call number \<open>i\<close> and the response \<open>r\<close>. It either rejects the wrapper promise (line 166) or
  resolves it with the items, at once or by the timer of line 177.
\<close>

definition onFetchResp :: "nat \<Rightarrow> 'a response \<Rightarrow> ('a, 'e) state \<Rightarrow> ('a, 'e) state" where
  "onFetchResp i r s =
     (let s0 = s\<lparr>fetchCalls := drop_nth i (fetchCalls s)\<rparr>;
          s1 = (if \<not> truthy (fo_total s0) \<and> truthy (fo_maxLimit s0) \<and>
                   resp_total r > num (fo_maxLimit s0)
                then s0\<lparr>fo_total := fo_maxLimit s0\<rparr> else s0)
      in if \<not> truthy (fo_total s1) \<and> resp_total r = 0
         then s1\<lparr>fetchRejected := Suc (fetchRejected s1)\<rparr>
         else
           let s2 = (if \<not> truthy (fo_total s1) then s1\<lparr>fo_total := Some (resp_total r)\<rparr> else s1);
               s3 = (if num (fo_total s2) \<noteq> resp_total r
                     then s2\<lparr>fo_total := Some (resp_total r)\<rparr> else s2)
           in s3\<lparr>fetchResolved := fetchResolved s3 @ [items r]\<rparr>)"

text \<open>The rejection callback of \<open>_fetchFunc\<close>'s promise, line 179.\<close>

definition onFetchFail :: "nat \<Rightarrow> 'e failure \<Rightarrow> ('a, 'e) state \<Rightarrow> ('a, 'e) state" where
  "onFetchFail i e s = s\<lparr>fetchCalls := drop_nth i (fetchCalls s), err := e\<rparr>"

text \<open>
  The callback of the wrapper promise in \<open>tryFetch\<close>, lines 120 to 127, for the resolved
  wrapper number \<open>i\<close>.
\<close>

definition onFetchDeliver :: "nat \<Rightarrow> int \<Rightarrow> ('a, 'e) state \<Rightarrow> ('a, 'e) state" where
  "onFetchDeliver i now s =
     (let its = fetchResolved s ! i;
          s1 = s\<lparr>fetchResolved := drop_nth i (fetchResolved s),
                 requestsConcurrent := requestsConcurrent s - 1\<rparr>;
          s2 = (if its \<noteq> [] then s1\<lparr>queue := queue s1 @ its\<rparr> else s1)
      in tryFetch now (tryProcess now s2))"

text \<open>The rejection callback of the wrapper promise in \<open>tryFetch\<close>, line 129.\<close>

definition onFetchReject :: "('a, 'e) state \<Rightarrow> ('a, 'e) state" where
  "onFetchReject s = s\<lparr>fetchRejected := fetchRejected s - 1, err := SourceEmpty\<rparr>"

text \<open>
  The callback of \<open>_processFunc\<close>'s promise in \<open>process\<close>, lines 190 to 202, for the pending
  call number \<open>i\<close>. The \<open>if\<close> of line 199 has the \<open>if\<close> of line 201 as its body, so the
  wrapper promise is resolved at line 201 or by the timer of line 202: in every case its
  callback runs later.
\<close>

definition onProcResp :: "nat \<Rightarrow> int \<Rightarrow> ('a, 'e) state \<Rightarrow> ('a, 'e) state" where
  "onProcResp i now s =
     (let s1 = s\<lparr>procCalls := drop_nth i (procCalls s), qo_processed := qo_processed s + 1\<rparr>;
          s2 = (if \<not> fo_paged s1 \<and> num (fo_total s1) = qo_processed s1
                then s1\<lparr>timeEnd := Some now\<rparr> else s1);
          s3 = (if fo_paged s2 \<and> num (fo_total s2) * fo_limit s2 = qo_processed s2
                then s2\<lparr>timeEnd := Some now\<rparr> else s2);
          s4 = (if truthy (fo_maxLimit s3) \<and> qo_processed s3 = num (fo_maxLimit s3)
                then s3\<lparr>timeEnd := Some now\<rparr> else s3)
      in s4\<lparr>procResolved := Suc (procResolved s4)\<rparr>)"

text \<open>The rejection callback of \<open>_processFunc\<close>'s promise, line 204.\<close>

definition onProcFail :: "nat \<Rightarrow> 'e failure \<Rightarrow> ('a, 'e) state \<Rightarrow> ('a, 'e) state" where
  "onProcFail i e s = s\<lparr>procCalls := drop_nth i (procCalls s), err := e\<rparr>"

text \<open>\<open>deferred.notify\<close>: Q drops a notification once the promise is settled.\<close>

definition notify :: "progress \<Rightarrow> ('a, 'e) state \<Rightarrow> ('a, 'e) state" where
  "notify p s = (if outcome s = None then s\<lparr>notifications := notifications s @ [p]\<rparr> else s)"

text \<open>The callback of the wrapper promise in \<open>tryProcess\<close>, lines 147 to 151.\<close>

definition onProcDeliver :: "int \<Rightarrow> ('a, 'e) state \<Rightarrow> ('a, 'e) state" where
  "onProcDeliver now s =
     (let s1 = s\<lparr>procResolved := procResolved s - 1,
                 processingConcurrent := processingConcurrent s - 1\<rparr>;
          s2 = notify \<lparr>at_offset = fo_offset s1, queueSize = length (queue s1),
                       at_processed = qo_processed s1\<rparr> s1;
          s3 = tryProcess now s2
      in if isFunction s3 \<and> requestsConcurrent s3 < qo_requestLimit s3 \<and>
            (truthy (fo_total s3) \<and>
             fo_offset s3 < (if fo_paged s3 then num (fo_total s3) + 1 else num (fo_total s3)))
         then tryFetch now s3 else s3)"

text \<open>\<open>deferred.resolve\<close> and \<open>deferred.reject\<close>: only the first settlement counts.\<close>

definition settle :: "'e outcome \<Rightarrow> ('a, 'e) state \<Rightarrow> ('a, 'e) state" where
  "settle out s = (if outcome s = None then s\<lparr>outcome := Some out\<rparr> else s)"

text \<open>The interval callback \<open>completeCheck\<close>, lines 88 to 105, run at time \<open>now\<close>.\<close>

definition onTick :: "int \<Rightarrow> ('a, 'e) state \<Rightarrow> ('a, 'e) state" where
  "onTick now s =
     (if failed (err s)
      then settle (Rejected (err s) (fo_total s) (qo_processed s)
                     (real_of_int (now - timeStart s) / 1000))
             (s\<lparr>watching := False\<rparr>)
      else if truthy (timeEnd s)
      then settle (Done (fo_total s) (qo_processed s)
                     (real_of_int (num (timeEnd s) - timeStart s) / 1000))
             (s\<lparr>watching := False\<rparr>)
      else if now - timeStart s > qo_maxRuntimeSeconds s * 1000
      then settle Timeout (s\<lparr>watching := False\<rparr>)
      else s)"

section \<open>Runs\<close>

text \<open>
  One event is one callback execution. An event is enabled when the promise or timer it
  belongs to is pending; \<open>step\<close> gives \<open>None\<close> otherwise.
\<close>

datatype ('a, 'e) event =
    FetchResp nat "'a response"
  | FetchFail nat "'e failure"
  | FetchDeliver nat int
  | FetchReject
  | ProcResp nat int
  | ProcFail nat "'e failure"
  | ProcDeliver int
  | Tick int

fun step :: "('a, 'e) event \<Rightarrow> ('a, 'e) state \<Rightarrow> ('a, 'e) state option" where
  "step (FetchResp i r) s = (if i < length (fetchCalls s) then Some (onFetchResp i r s) else None)"
| "step (FetchFail i e) s = (if i < length (fetchCalls s) then Some (onFetchFail i e s) else None)"
| "step (FetchDeliver i now) s =
     (if i < length (fetchResolved s) then Some (onFetchDeliver i now s) else None)"
| "step FetchReject s = (if 0 < fetchRejected s then Some (onFetchReject s) else None)"
| "step (ProcResp i now) s = (if i < length (procCalls s) then Some (onProcResp i now s) else None)"
| "step (ProcFail i e) s = (if i < length (procCalls s) then Some (onProcFail i e s) else None)"
| "step (ProcDeliver now) s = (if 0 < procResolved s then Some (onProcDeliver now s) else None)"
| "step (Tick now) s = (if watching s then Some (onTick now s) else None)"

fun run :: "('a, 'e) event list \<Rightarrow> ('a, 'e) state \<Rightarrow> ('a, 'e) state option" where
  "run [] s = Some s"
| "run (ev # evs) s = (case step ev s of None \<Rightarrow> None | Some s' \<Rightarrow> run evs s')"

text \<open>
  The body of \<open>fetchAndProcess\<close> itself, lines 38 to 225, called at time \<open>now\<close> with the
  options \<open>opts\<close> (the defaults extended with the caller's).
\<close>

definition start :: "'a source \<Rightarrow> options \<Rightarrow> int \<Rightarrow> ('a, 'e) state" where
  "start src opts now =
     \<lparr> fo_limit = fo_limit opts, fo_offset = fo_offset opts, fo_maxLimit = fo_maxLimit opts,
       fo_paged = fo_paged opts,
       fo_total = (case src of Items xs \<Rightarrow> Some (int (length xs)) | Fetcher \<Rightarrow> fo_total opts),
       qo_requestLimit = qo_requestLimit opts, qo_processingLimit = qo_processingLimit opts,
       qo_queueLimit = qo_queueLimit opts, qo_maxRuntimeSeconds = qo_maxRuntimeSeconds opts,
       qo_processed = qo_processed opts,
       queue = [], timeStart = now, timeEnd = None,
       requestsConcurrent = 0, processingConcurrent = 0, err = Falsy,
       isFunction = (case src of Items xs \<Rightarrow> False | Fetcher \<Rightarrow> True),
       fetchCalls = [], fetchResolved = [], fetchRejected = 0,
       procCalls = [], procResolved = 0,
       watching = True, outcome = None, notifications = [] \<rparr>"

definition fetchAndProcess :: "'a source \<Rightarrow> options \<Rightarrow> int \<Rightarrow> ('a, 'e) state" where
  "fetchAndProcess src opts now =
     (let s = start src opts now
      in case src of
           Items xs \<Rightarrow>
             if xs = [] then (settle ResolvedEmpty s)\<lparr>watching := False\<rparr>
             else tryProcess now (s\<lparr>queue := xs\<rparr>)
         | Fetcher \<Rightarrow> tryFetch now s)"

section \<open>Names for the parts of the schedulers\<close>

text \<open>
  The test that opens both schedulers (lines 109 and 139), the four returns of \<open>tryFetch\<close>
  that follow it (lines 111 to 116), what \<open>tryFetch\<close> does when it issues a fetch (lines 118,
  119 and 134), and the same for \<open>tryProcess\<close> (lines 141 to 143, then 145 and 146).
\<close>

definition finished :: "('a, 'e) state \<Rightarrow> bool" where
  "finished s = (truthy (fo_total s) \<and> qo_processed s = num (fo_total s))"

definition fetchBlocked :: "('a, 'e) state \<Rightarrow> bool" where
  "fetchBlocked s =
     (failed (err s) \<or> requestsConcurrent s \<ge> qo_requestLimit s \<or>
      int (length (queue s)) + fo_limit s * (requestsConcurrent s + 1) \<ge> qo_queueLimit s \<or>
      (truthy (fo_total s) \<and>
         fo_offset s \<ge> (if fo_paged s then num (fo_total s) + 1 else num (fo_total s))) \<or>
      (truthy (fo_maxLimit s) \<and> fo_offset s \<ge> num (fo_maxLimit s)))"

definition issueFetch :: "('a, 'e) state \<Rightarrow> ('a, 'e) state" where
  "issueFetch s =
     s\<lparr>requestsConcurrent := requestsConcurrent s + 1,
       fetchCalls := fetchCalls s @ [(fo_limit s, fo_offset s)],
       fo_offset := fo_offset s + (if fo_paged s then 1 else fo_limit s)\<rparr>"

definition procBlocked :: "('a, 'e) state \<Rightarrow> bool" where
  "procBlocked s =
     (failed (err s) \<or> queue s = [] \<or> processingConcurrent s \<ge> qo_processingLimit s)"

definition issueProcess :: "('a, 'e) state \<Rightarrow> ('a, 'e) state" where
  "issueProcess s =
     s\<lparr>processingConcurrent := processingConcurrent s + 1,
       procCalls := procCalls s @ [hd (queue s)],
       queue := tl (queue s)\<rparr>"

text \<open>
  How far an in-flight counter exceeds the operations that can still decrement it: a fetch
  counted in \<open>_requestsConcurrent\<close> is decremented by the callback of a resolved wrapper
  promise, which needs a pending call or a resolved wrapper; likewise for processes.
\<close>

definition leakedFetches :: "('a, 'e) state \<Rightarrow> int" where
  "leakedFetches s =
     requestsConcurrent s - int (length (fetchCalls s)) - int (length (fetchResolved s))"

definition leakedProcesses :: "('a, 'e) state \<Rightarrow> int" where
  "leakedProcesses s =
     processingConcurrent s - int (length (procCalls s)) - int (procResolved s)"

section \<open>Invariants of a run on an array\<close>

text \<open>
  When the source is a non-empty array there is no fetch capability: whatever the options,
  \<open>total\<close> is the length of the array and no fetch is ever counted or pending
  (\<open>arrayMode\<close>). When the counter of processed items is not started above 0, every item
  is moreover in exactly one place: counted as processed, handed to the process capability,
  or still in the queue; a failed process loses its item, hence the inequality
  (\<open>arrayInv\<close>).
\<close>

definition arrayMode :: "int \<Rightarrow> ('a, 'e) state \<Rightarrow> bool" where
  "arrayMode n s =
     (fo_total s = Some n \<and> \<not> isFunction s \<and>
      fetchCalls s = [] \<and> fetchResolved s = [] \<and> fetchRejected s = 0 \<and>
      requestsConcurrent s = 0 \<and> outcome s \<noteq> Some ResolvedEmpty)"

definition arrayInv :: "int \<Rightarrow> ('a, 'e) state \<Rightarrow> bool" where
  "arrayInv n s =
     (fo_total s = Some n \<and> \<not> isFunction s \<and>
      fetchCalls s = [] \<and> fetchResolved s = [] \<and> fetchRejected s = 0 \<and>
      qo_processed s + int (length (procCalls s)) + int (length (queue s)) \<le> n)"

text \<open>
  With \<open>maxLimit\<close> unset, or of a value that the count cannot reach before the last item
  (below 1, or at least the length of the array), the end timestamp is only ever set when
  every item has been processed, and the promise is only ever resolved with that count.
\<close>

definition doneInv :: "int \<Rightarrow> ('a, 'e) state \<Rightarrow> bool" where
  "doneInv n s =
     (arrayInv n s \<and> 0 < n \<and>
      (num (fo_maxLimit s) \<le> 0 \<or> n \<le> num (fo_maxLimit s)) \<and> 0 \<le> qo_processed s \<and>
      (timeEnd s = None \<or> qo_processed s = n) \<and>
      (case outcome s of
         Some (Done f p t) \<Rightarrow> f = Some n \<and> p = n
       | Some ResolvedEmpty \<Rightarrow> False
       | _ \<Rightarrow> True))"

text \<open>
  \<open>unfailing\<close>: the events other than the failure of a capability. As long as none
  occurs in a run on an array, no item is lost, the counter \<open>_processingConcurrent\<close>
  counts exactly the processes in flight, the queue is empty or the processing slots are
  all taken, and when the last item has been processed the end timestamp is set or the
  callback that will set it is pending.
\<close>

definition unfailing :: "('a, 'e) event \<Rightarrow> bool" where
  "unfailing ev = (case ev of ProcFail i e \<Rightarrow> False | FetchFail i e \<Rightarrow> False | _ \<Rightarrow> True)"

definition drainBase :: "int \<Rightarrow> ('a, 'e) state \<Rightarrow> bool" where
  "drainBase n s =
     (arrayInv n s \<and> 0 < n \<and> err s = Falsy \<and>
      qo_processed s + int (length (procCalls s)) + int (length (queue s)) = n \<and>
      processingConcurrent s = int (length (procCalls s)) + int (procResolved s))"

definition drainInv :: "int \<Rightarrow> ('a, 'e) state \<Rightarrow> bool" where
  "drainInv n s =
     (drainBase n s \<and>
      (queue s = [] \<or> qo_processingLimit s \<le> processingConcurrent s) \<and>
      (qo_processed s \<noteq> n \<or> timeEnd s \<noteq> None \<or> 0 < procResolved s))"

section \<open>A source that keeps to its total\<close>





section \<open>Unfolding the schedulers\<close>

lemma tryFetch_finished: "finished s \<Longrightarrow> tryFetch now s = s\<lparr>timeEnd := Some now\<rparr>"
  by (subst tryFetch.simps) (simp add: finished_def)

lemma tryFetch_blocked: "\<not> finished s \<Longrightarrow> fetchBlocked s \<Longrightarrow> tryFetch now s = s"
  by (subst tryFetch.simps) (auto simp add: finished_def fetchBlocked_def)

lemma tryFetch_issue:
  "\<not> finished s \<Longrightarrow> \<not> fetchBlocked s \<Longrightarrow> tryFetch now s = tryFetch now (issueFetch s)"
  by (subst tryFetch.simps) (auto simp add: finished_def fetchBlocked_def issueFetch_def)

lemma tryProcess_finished: "finished s \<Longrightarrow> tryProcess now s = s\<lparr>timeEnd := Some now\<rparr>"
  by (subst tryProcess.simps) (simp add: finished_def)

lemma tryProcess_blocked: "\<not> finished s \<Longrightarrow> procBlocked s \<Longrightarrow> tryProcess now s = s"
  by (subst tryProcess.simps) (auto simp add: finished_def procBlocked_def)

lemma tryProcess_issue:
  "\<not> finished s \<Longrightarrow> \<not> procBlocked s \<Longrightarrow> tryProcess now s = tryProcess now (issueProcess s)"
  by (subst tryProcess.simps) (auto simp add: finished_def procBlocked_def issueProcess_def)

text \<open>
  A property kept by stamping \<open>_timeEnd\<close> in a finished state and by issuing one operation
  in a state that admits it is kept by the whole scheduler call.
\<close>

lemma tryFetch_preserves:
  "Q s \<Longrightarrow> (\<And>u. Q u \<Longrightarrow> finished u \<Longrightarrow> Q (u\<lparr>timeEnd := Some now\<rparr>)) \<Longrightarrow>
   (\<And>u. Q u \<Longrightarrow> \<not> finished u \<Longrightarrow> \<not> fetchBlocked u \<Longrightarrow> Q (issueFetch u)) \<Longrightarrow>
   Q (tryFetch now s)"
proof (induction now s rule: tryFetch.induct)
  case (1 now s)
  show ?case
  proof (cases "finished s")
    case True
    then show ?thesis using 1(2,3) by (simp add: tryFetch_finished)
  next
    case nf: False
    show ?thesis
    proof (cases "fetchBlocked s")
      case True
      then show ?thesis using nf 1(2) by (simp add: tryFetch_blocked)
    next
      case False
      have q: "Q (issueFetch s)" using 1(4) [OF 1(2) nf False] .
      have "Q (tryFetch now (issueFetch s))"
        unfolding issueFetch_def
        by (rule 1(1))
          (use nf False q 1(3,4) in \<open>auto simp: finished_def fetchBlocked_def issueFetch_def\<close>)
      then show ?thesis using nf False by (simp add: tryFetch_issue)
    qed
  qed
qed

lemma tryProcess_preserves:
  "Q s \<Longrightarrow> (\<And>u. Q u \<Longrightarrow> finished u \<Longrightarrow> Q (u\<lparr>timeEnd := Some now\<rparr>)) \<Longrightarrow>
   (\<And>u. Q u \<Longrightarrow> \<not> finished u \<Longrightarrow> \<not> procBlocked u \<Longrightarrow> Q (issueProcess u)) \<Longrightarrow>
   Q (tryProcess now s)"
proof (induction now s rule: tryProcess.induct)
  case (1 now s)
  show ?case
  proof (cases "finished s")
    case True
    then show ?thesis using 1(2,3) by (simp add: tryProcess_finished)
  next
    case nf: False
    show ?thesis
    proof (cases "procBlocked s")
      case True
      then show ?thesis using nf 1(2) by (simp add: tryProcess_blocked)
    next
      case False
      have q: "Q (issueProcess s)" using 1(4) [OF 1(2) nf False] .
      have "Q (tryProcess now (issueProcess s))"
        unfolding issueProcess_def
        by (rule 1(1))
          (use nf False q 1(3,4) in \<open>auto simp: finished_def procBlocked_def issueProcess_def\<close>)
      then show ?thesis using nf False by (simp add: tryProcess_issue)
    qed
  qed
qed

section \<open>Evaluating runs\<close>

lemmas eval_defs =
  fetchAndProcess_def start_def default_options_def tryProcess.simps tryFetch.simps
  onFetchResp_def onFetchFail_def onFetchDeliver_def onFetchReject_def onProcResp_def
  onProcFail_def onProcDeliver_def onTick_def settle_def notify_def truthy_def num_def
  failed_def drop_nth_def

section \<open>Admission of a fetch\<close>



section \<open>Discovery of the total\<close>

text \<open>
  A response that is not rejected as an empty source leaves \<open>total\<close> at the total it
  reports, whatever \<open>total\<close> and \<open>maxLimit\<close> were before.
\<close>

lemma onFetchResp_total_reported:
  "fetchRejected (onFetchResp i r s) = fetchRejected s \<Longrightarrow>
   fo_total (onFetchResp i r s) = Some (resp_total r)"
  by (auto simp: onFetchResp_def Let_def num_def truthy_def split: if_splits option.splits)

text \<open>
  Claim C3 says that a response handled while \<open>total\<close> is unknown, with \<open>maxLimit\<close> set and
  smaller than the reported total, leaves \<open>total\<close> at \<open>maxLimit\<close>. Line 165 assigns
  \<open>maxLimit\<close>, as its comment announces, and line 169 then replaces it by the reported total,
  from which it differs. With \<open>maxLimit = 3\<close> and a first response reporting a total of 10,
  \<open>total\<close> is unknown before the response and 10 after it.
\<close>

theorem maxLimit_override_lost:
  "fo_total (fetchAndProcess Fetcher (default_options\<lparr>fo_maxLimit := Some 3\<rparr>) 1000
       :: (nat, unit) state) = None \<and>
   map_option fo_total
     (step (FetchResp 0 \<lparr>resp_total = 10, items = [1, 2]\<rparr>)
        (fetchAndProcess Fetcher (default_options\<lparr>fo_maxLimit := Some 3\<rparr>) 1000
           :: (nat, unit) state)) = Some (Some 10)"
  by (simp add: eval_defs)

section \<open>The empty array\<close>

text \<open>
  Claim C8. Called with an empty array, \<open>fetchAndProcess\<close> returns with the promise
  resolved (line 214) and the interval cleared (line 215). No item has been handed to the
  process capability, the counter of processed items is the one of the options (0 by
  default), nothing has been notified, and no callback can run afterwards: none of a fetch,
  none of a process, and no tick of the interval.
\<close>

theorem empty_array_resolves:
  "outcome (fetchAndProcess (Items []) opts now :: ('a, 'e) state) = Some ResolvedEmpty \<and>
   watching (fetchAndProcess (Items []) opts now :: ('a, 'e) state) = False \<and>
   notifications (fetchAndProcess (Items []) opts now :: ('a, 'e) state) = [] \<and>
   qo_processed (fetchAndProcess (Items []) opts now :: ('a, 'e) state) = qo_processed opts \<and>
   qo_processed (fetchAndProcess (Items []) default_options now :: ('a, 'e) state) = 0 \<and>
   procCalls (fetchAndProcess (Items []) opts now :: ('a, 'e) state) = [] \<and>
   fetchCalls (fetchAndProcess (Items []) opts now :: ('a, 'e) state) = [] \<and>
   (\<forall>ev. step ev (fetchAndProcess (Items []) opts now :: ('a, 'e) state) = None)"
proof -
  have "step ev (fetchAndProcess (Items []) opts now :: ('a, 'e) state) = None" for ev
    by (cases ev) (simp_all add: fetchAndProcess_def start_def settle_def)
  then show ?thesis
    by (simp add: fetchAndProcess_def start_def settle_def default_options_def)
qed

section \<open>What the schedulers leave alone\<close>

lemma tryFetch_frame:
  "queue (tryFetch now s) = queue s \<and> err (tryFetch now s) = err s \<and>
   qo_processed (tryFetch now s) = qo_processed s \<and> fo_total (tryFetch now s) = fo_total s \<and>
   procCalls (tryFetch now s) = procCalls s \<and> procResolved (tryFetch now s) = procResolved s \<and>
   processingConcurrent (tryFetch now s) = processingConcurrent s \<and>
   fetchResolved (tryFetch now s) = fetchResolved s \<and>
   fetchRejected (tryFetch now s) = fetchRejected s \<and>
   outcome (tryFetch now s) = outcome s \<and> notifications (tryFetch now s) = notifications s \<and>
   watching (tryFetch now s) = watching s \<and> isFunction (tryFetch now s) = isFunction s \<and>
   fo_maxLimit (tryFetch now s) = fo_maxLimit s \<and> fo_paged (tryFetch now s) = fo_paged s \<and>
   fo_limit (tryFetch now s) = fo_limit s \<and>
   qo_processingLimit (tryFetch now s) = qo_processingLimit s \<and>
   timeStart (tryFetch now s) = timeStart s"
  by (rule tryFetch_preserves [where Q = "\<lambda>u.
       queue u = queue s \<and> err u = err s \<and> qo_processed u = qo_processed s \<and>
       fo_total u = fo_total s \<and> procCalls u = procCalls s \<and> procResolved u = procResolved s \<and>
       processingConcurrent u = processingConcurrent s \<and> fetchResolved u = fetchResolved s \<and>
       fetchRejected u = fetchRejected s \<and> outcome u = outcome s \<and>
       notifications u = notifications s \<and> watching u = watching s \<and>
       isFunction u = isFunction s \<and> fo_maxLimit u = fo_maxLimit s \<and> fo_paged u = fo_paged s \<and>
       fo_limit u = fo_limit s \<and> qo_processingLimit u = qo_processingLimit s \<and>
       timeStart u = timeStart s"])
     (simp_all add: issueFetch_def)

lemma tryFetch_fields [simp]:
  "queue (tryFetch now s) = queue s" "err (tryFetch now s) = err s"
  "qo_processed (tryFetch now s) = qo_processed s" "fo_total (tryFetch now s) = fo_total s"
  "procCalls (tryFetch now s) = procCalls s" "procResolved (tryFetch now s) = procResolved s"
  "processingConcurrent (tryFetch now s) = processingConcurrent s"
  "fetchResolved (tryFetch now s) = fetchResolved s"
  "fetchRejected (tryFetch now s) = fetchRejected s"
  "outcome (tryFetch now s) = outcome s" "notifications (tryFetch now s) = notifications s"
  "watching (tryFetch now s) = watching s" "isFunction (tryFetch now s) = isFunction s"
  "fo_maxLimit (tryFetch now s) = fo_maxLimit s" "fo_paged (tryFetch now s) = fo_paged s"
  "fo_limit (tryFetch now s) = fo_limit s"
  "qo_processingLimit (tryFetch now s) = qo_processingLimit s"
  "timeStart (tryFetch now s) = timeStart s"
  using tryFetch_frame [of now s] by simp_all

lemma tryProcess_frame:
  "err (tryProcess now s) = err s \<and>
   qo_processed (tryProcess now s) = qo_processed s \<and> fo_total (tryProcess now s) = fo_total s \<and>
   fetchCalls (tryProcess now s) = fetchCalls s \<and> procResolved (tryProcess now s) = procResolved s \<and>
   requestsConcurrent (tryProcess now s) = requestsConcurrent s \<and>
   fetchResolved (tryProcess now s) = fetchResolved s \<and>
   fetchRejected (tryProcess now s) = fetchRejected s \<and>
   outcome (tryProcess now s) = outcome s \<and> notifications (tryProcess now s) = notifications s \<and>
   watching (tryProcess now s) = watching s \<and> isFunction (tryProcess now s) = isFunction s \<and>
   fo_maxLimit (tryProcess now s) = fo_maxLimit s \<and> fo_paged (tryProcess now s) = fo_paged s \<and>
   fo_limit (tryProcess now s) = fo_limit s \<and> fo_offset (tryProcess now s) = fo_offset s \<and>
   qo_processingLimit (tryProcess now s) = qo_processingLimit s \<and>
   qo_requestLimit (tryProcess now s) = qo_requestLimit s \<and>
   timeStart (tryProcess now s) = timeStart s"
  by (rule tryProcess_preserves [where Q = "\<lambda>u.
       err u = err s \<and> qo_processed u = qo_processed s \<and>
       fo_total u = fo_total s \<and> fetchCalls u = fetchCalls s \<and> procResolved u = procResolved s \<and>
       requestsConcurrent u = requestsConcurrent s \<and> fetchResolved u = fetchResolved s \<and>
       fetchRejected u = fetchRejected s \<and> outcome u = outcome s \<and>
       notifications u = notifications s \<and> watching u = watching s \<and>
       isFunction u = isFunction s \<and> fo_maxLimit u = fo_maxLimit s \<and> fo_paged u = fo_paged s \<and>
       fo_limit u = fo_limit s \<and> fo_offset u = fo_offset s \<and>
       qo_processingLimit u = qo_processingLimit s \<and> qo_requestLimit u = qo_requestLimit s \<and>
       timeStart u = timeStart s"])
     (simp_all add: issueProcess_def)

lemma tryProcess_fields [simp]:
  "err (tryProcess now s) = err s"
  "qo_processed (tryProcess now s) = qo_processed s" "fo_total (tryProcess now s) = fo_total s"
  "fetchCalls (tryProcess now s) = fetchCalls s" "procResolved (tryProcess now s) = procResolved s"
  "requestsConcurrent (tryProcess now s) = requestsConcurrent s"
  "fetchResolved (tryProcess now s) = fetchResolved s"
  "fetchRejected (tryProcess now s) = fetchRejected s"
  "outcome (tryProcess now s) = outcome s" "notifications (tryProcess now s) = notifications s"
  "watching (tryProcess now s) = watching s" "isFunction (tryProcess now s) = isFunction s"
  "fo_maxLimit (tryProcess now s) = fo_maxLimit s" "fo_paged (tryProcess now s) = fo_paged s"
  "fo_limit (tryProcess now s) = fo_limit s" "fo_offset (tryProcess now s) = fo_offset s"
  "qo_processingLimit (tryProcess now s) = qo_processingLimit s"
  "qo_requestLimit (tryProcess now s) = qo_requestLimit s"
  "timeStart (tryProcess now s) = timeStart s"
  using tryProcess_frame [of now s] by simp_all

lemma tryFetch_timeEnd: "timeEnd s \<noteq> None \<Longrightarrow> timeEnd (tryFetch now s) \<noteq> None"
  by (rule tryFetch_preserves [where Q = "\<lambda>u. timeEnd u \<noteq> None"]) (simp_all add: issueFetch_def)

lemma tryProcess_timeEnd: "timeEnd s \<noteq> None \<Longrightarrow> timeEnd (tryProcess now s) \<noteq> None"
  by (rule tryProcess_preserves [where Q = "\<lambda>u. timeEnd u \<noteq> None"])
    (simp_all add: issueProcess_def)

lemma tryFetch_leaked:
  "leakedFetches (tryFetch now s) = leakedFetches s"
  by (rule tryFetch_preserves [where Q = "\<lambda>u. leakedFetches u = leakedFetches s"])
    (simp_all add: issueFetch_def leakedFetches_def)

lemma tryFetch_leakedProcesses [simp]:
  "leakedProcesses (tryFetch now s) = leakedProcesses s"
  by (simp add: leakedProcesses_def)

lemma tryProcess_leaked:
  "leakedProcesses (tryProcess now s) = leakedProcesses s"
  by (rule tryProcess_preserves [where Q = "\<lambda>u. leakedProcesses u = leakedProcesses s"])
    (simp_all add: issueProcess_def leakedProcesses_def)

lemma tryProcess_leakedFetches [simp]:
  "leakedFetches (tryProcess now s) = leakedFetches s"
  by (simp add: leakedFetches_def)

lemma length_drop_nth: "i < length xs \<Longrightarrow> length (drop_nth i xs) = length xs - 1"
  by (auto simp: drop_nth_def)

lemma tryFetch_failed:
  "failed (err s) \<Longrightarrow> tryFetch now s = s \<or> tryFetch now s = s\<lparr>timeEnd := Some now\<rparr>"
  by (cases "finished s") (simp_all add: tryFetch_finished tryFetch_blocked fetchBlocked_def)

lemma tryProcess_failed:
  "failed (err s) \<Longrightarrow> tryProcess now s = s \<or> tryProcess now s = s\<lparr>timeEnd := Some now\<rparr>"
  by (cases "finished s") (simp_all add: tryProcess_finished tryProcess_blocked procBlocked_def)

section \<open>The end timestamp\<close>

lemma onFetchDeliver_timeEnd:
  "timeEnd s \<noteq> None \<Longrightarrow> timeEnd (onFetchDeliver i now s) \<noteq> None"
  unfolding onFetchDeliver_def Let_def
  by (intro tryFetch_timeEnd tryProcess_timeEnd) simp

lemma onProcDeliver_timeEnd:
  "timeEnd s \<noteq> None \<Longrightarrow> timeEnd (onProcDeliver now s) \<noteq> None"
proof -
  assume a: "timeEnd s \<noteq> None"
  let ?s2 = "notify \<lparr>at_offset = fo_offset s, queueSize = length (queue s),
                      at_processed = qo_processed s\<rparr>
               (s\<lparr>procResolved := procResolved s - 1,
                  processingConcurrent := processingConcurrent s - 1\<rparr>)"
  have "timeEnd ?s2 \<noteq> None" using a by (simp add: notify_def)
  then have b: "timeEnd (tryProcess now ?s2) \<noteq> None" by (rule tryProcess_timeEnd)
  then have "timeEnd (tryFetch now (tryProcess now ?s2)) \<noteq> None" by (rule tryFetch_timeEnd)
  with b show ?thesis by (simp add: onProcDeliver_def Let_def)
qed

lemma onProcResp_timeEnd:
  "timeEnd s \<noteq> None \<Longrightarrow> timeEnd (onProcResp i now s) \<noteq> None"
  by (simp add: onProcResp_def Let_def)

text \<open>
  Claim C4, as amended. Once \<open>_timeEnd\<close> holds a timestamp, no callback clears it: after
  every step it still holds a timestamp. (It need not be the same one: the assignments of
  lines 109, 139 and 195 to 197 are unconditional and store the current time again.)
\<close>

theorem finishedAt_never_cleared:
  assumes "step ev s = Some s'" and "timeEnd s \<noteq> None"
  shows "timeEnd s' \<noteq> None"
proof (cases ev)
  case (FetchResp i r)
  then show ?thesis using assms
    by (auto simp: onFetchResp_def Let_def split: if_splits)
next
  case (FetchFail i e)
  then show ?thesis using assms by (auto simp: onFetchFail_def split: if_splits)
next
  case (FetchDeliver i now)
  then have "s' = onFetchDeliver i now s" using assms(1) by (simp split: if_splits)
  then show ?thesis using assms(2) by (simp add: onFetchDeliver_timeEnd)
next
  case FetchReject
  then show ?thesis using assms by (auto simp: onFetchReject_def split: if_splits)
next
  case (ProcResp i now)
  then have "s' = onProcResp i now s" using assms(1) by (simp split: if_splits)
  then show ?thesis using assms(2) by (simp add: onProcResp_timeEnd)
next
  case (ProcFail i e)
  then show ?thesis using assms by (auto simp: onProcFail_def split: if_splits)
next
  case (ProcDeliver now)
  then have "s' = onProcDeliver now s" using assms(1) by (simp split: if_splits)
  then show ?thesis using assms(2) by (simp add: onProcDeliver_timeEnd)
next
  case (Tick now)
  then show ?thesis using assms by (auto simp: onTick_def settle_def split: if_splits)
qed

text \<open>
  The theorem at the run of a one-item array, at the step after the item's completion has
  set the timestamp.
\<close>

theorem finishedAt_never_cleared_witness:
  "step (ProcDeliver 1012)
     (onProcResp 0 1010 (fetchAndProcess (Items [7]) default_options 1000 :: (nat, unit) state))
   = Some (onProcDeliver 1012
       (onProcResp 0 1010 (fetchAndProcess (Items [7]) default_options 1000))) \<and>
   timeEnd (onProcResp 0 1010 (fetchAndProcess (Items [7]) default_options 1000
              :: (nat, unit) state)) \<noteq> None \<and>
   timeEnd (onProcDeliver 1012
       (onProcResp 0 1010 (fetchAndProcess (Items [7]) default_options 1000
              :: (nat, unit) state))) \<noteq> None"
  using finishedAt_never_cleared [of "ProcDeliver 1012"
      "onProcResp 0 1010 (fetchAndProcess (Items [7]) default_options 1000 :: (nat, unit) state)"
      "onProcDeliver 1012
         (onProcResp 0 1010 (fetchAndProcess (Items [7]) default_options 1000))"]
  by (simp add: eval_defs)

text \<open>
  Claim C4 as stated fails: for the array \<open>[7]\<close> the completion of the item at time 1010
  sets \<open>_timeEnd\<close> to 1010 (line 195), and the callback of the wrapper promise, run at time
  1012, calls \<open>tryProcess\<close>, whose line 139 sets it to 1012.
\<close>

theorem finishedAt_overwritten:
  "map_option timeEnd
     (run [ProcResp 0 1010]
        (fetchAndProcess (Items [7]) default_options 1000 :: (nat, unit) state))
     = Some (Some 1010) \<and>
   map_option timeEnd
     (run [ProcResp 0 1010, ProcDeliver 1012]
        (fetchAndProcess (Items [7]) default_options 1000 :: (nat, unit) state))
     = Some (Some 1012)"
  by (simp add: eval_defs)

section \<open>The error slot\<close>

text \<open>
  Claim C5, as amended. The slot \<open>_err\<close> holds the most recent failure: a failure of the
  fetch capability, a failure of the process capability and the rejection for an empty
  source each assign their reason to the slot, whatever it held, and no other callback
  changes it.
\<close>

theorem error_slot_holds_last_failure:
  assumes "step ev s = Some s'"
  shows "err s' = (case ev of FetchFail i e \<Rightarrow> e | ProcFail i e \<Rightarrow> e
                   | FetchReject \<Rightarrow> SourceEmpty | _ \<Rightarrow> err s)"
proof (cases ev)
  case (FetchResp i r)
  then show ?thesis using assms
    by (auto simp: onFetchResp_def Let_def split: if_splits)
next
  case (FetchFail i e)
  then show ?thesis using assms by (auto simp: onFetchFail_def split: if_splits)
next
  case (FetchDeliver i now)
  then show ?thesis using assms
    by (auto simp: onFetchDeliver_def Let_def split: if_splits)
next
  case FetchReject
  then show ?thesis using assms by (auto simp: onFetchReject_def split: if_splits)
next
  case (ProcResp i now)
  then show ?thesis using assms by (auto simp: onProcResp_def Let_def split: if_splits)
next
  case (ProcFail i e)
  then show ?thesis using assms by (auto simp: onProcFail_def split: if_splits)
next
  case (ProcDeliver now)
  then show ?thesis using assms
    by (auto simp: onProcDeliver_def Let_def notify_def split: if_splits)
next
  case (Tick now)
  then show ?thesis using assms by (auto simp: onTick_def settle_def split: if_splits)
qed

text \<open>The theorem at the second of two failing fetches.\<close>

theorem error_slot_holds_last_failure_witness:
  "step (FetchFail 0 (Reason 2))
     (onFetchFail 0 (Reason 1)
        (fetchAndProcess Fetcher (default_options\<lparr>qo_requestLimit := 2\<rparr>) 1000
           :: (nat, nat) state))
   = Some (onFetchFail 0 (Reason 2) (onFetchFail 0 (Reason 1)
        (fetchAndProcess Fetcher (default_options\<lparr>qo_requestLimit := 2\<rparr>) 1000))) \<and>
   err (onFetchFail 0 (Reason 2) (onFetchFail 0 (Reason 1)
        (fetchAndProcess Fetcher (default_options\<lparr>qo_requestLimit := 2\<rparr>) 1000
           :: (nat, nat) state))) = Reason 2"
  using error_slot_holds_last_failure [of "FetchFail 0 (Reason 2)"
      "onFetchFail 0 (Reason 1)
        (fetchAndProcess Fetcher (default_options\<lparr>qo_requestLimit := 2\<rparr>) 1000
           :: (nat, nat) state)"
      "onFetchFail 0 (Reason 2) (onFetchFail 0 (Reason 1)
        (fetchAndProcess Fetcher (default_options\<lparr>qo_requestLimit := 2\<rparr>) 1000))"]
  by (simp add: eval_defs)

text \<open>
  Claim C5 as stated fails: with \<open>requestLimit = 2\<close> two fetches are in flight from the
  start; when the first fails with reason 1 and the second with reason 2, the slot holds
  reason 1 and then reason 2.
\<close>

theorem first_failure_overwritten:
  "map_option err
     (run [FetchFail 0 (Reason 1)]
        (fetchAndProcess Fetcher (default_options\<lparr>qo_requestLimit := 2\<rparr>) 1000
           :: (nat, nat) state)) = Some (Reason 1) \<and>
   map_option err
     (run [FetchFail 0 (Reason 1), FetchFail 0 (Reason 2)]
        (fetchAndProcess Fetcher (default_options\<lparr>qo_requestLimit := 2\<rparr>) 1000
           :: (nat, nat) state)) = Some (Reason 2)"
  by (simp add: eval_defs)

section \<open>After an error\<close>

lemma tryFetch_failed_fields:
  assumes "failed (err s)"
  shows "fetchCalls (tryFetch now s) = fetchCalls s" "fo_offset (tryFetch now s) = fo_offset s"
    "requestsConcurrent (tryFetch now s) = requestsConcurrent s"
  using tryFetch_failed [OF assms, of now] by auto

lemma tryProcess_failed_fields:
  assumes "failed (err s)"
  shows "procCalls (tryProcess now s) = procCalls s" "queue (tryProcess now s) = queue s"
    "processingConcurrent (tryProcess now s) = processingConcurrent s"
  using tryProcess_failed [OF assms, of now] by auto

text \<open>
  Claim C6, as amended. In a state with a recorded error neither scheduler admits work: a
  call of \<open>tryFetch\<close> issues no fetch, a call of \<open>tryProcess\<close> takes no item from the queue,
  and no callback starts an operation, takes an item from the queue or moves the offset.
  The completion of an operation already in flight is acted upon all the same: the items of
  a fetch are appended to the queue, a processed item is counted, and the notification of
  line 148 is emitted as long as the promise returned to the caller is pending (once that
  promise is settled, \<open>deferred.notify\<close> emits nothing, with or without an error).
\<close>

theorem no_admission_after_error:
  assumes "failed (err s)" and "step ev s = Some s'"
  shows "fetchCalls (tryFetch now s) = fetchCalls s \<and>
         procCalls (tryProcess now s) = procCalls s \<and> queue (tryProcess now s) = queue s \<and>
         fetchCalls s' = (case ev of FetchResp i r \<Rightarrow> drop_nth i (fetchCalls s)
                          | FetchFail i e \<Rightarrow> drop_nth i (fetchCalls s) | _ \<Rightarrow> fetchCalls s) \<and>
         procCalls s' = (case ev of ProcResp i t \<Rightarrow> drop_nth i (procCalls s)
                          | ProcFail i e \<Rightarrow> drop_nth i (procCalls s) | _ \<Rightarrow> procCalls s) \<and>
         queue s' = (case ev of FetchDeliver i t \<Rightarrow> queue s @ fetchResolved s ! i
                          | _ \<Rightarrow> queue s) \<and>
         qo_processed s' = (case ev of ProcResp i t \<Rightarrow> qo_processed s + 1
                          | _ \<Rightarrow> qo_processed s) \<and>
         notifications s' = (case ev of ProcDeliver t \<Rightarrow>
               (if outcome s = None
                then notifications s @ [\<lparr>at_offset = fo_offset s, queueSize = length (queue s),
                                          at_processed = qo_processed s\<rparr>]
                else notifications s)
                          | _ \<Rightarrow> notifications s) \<and>
         fo_offset s' = fo_offset s"
proof -
  note ff = tryFetch_failed_fields tryProcess_failed_fields
  have sched: "fetchCalls (tryFetch now s) = fetchCalls s \<and>
         procCalls (tryProcess now s) = procCalls s \<and> queue (tryProcess now s) = queue s"
    using assms(1) by (simp add: ff)
  have "fetchCalls s' = (case ev of FetchResp i r \<Rightarrow> drop_nth i (fetchCalls s)
                          | FetchFail i e \<Rightarrow> drop_nth i (fetchCalls s) | _ \<Rightarrow> fetchCalls s) \<and>
         procCalls s' = (case ev of ProcResp i t \<Rightarrow> drop_nth i (procCalls s)
                          | ProcFail i e \<Rightarrow> drop_nth i (procCalls s) | _ \<Rightarrow> procCalls s) \<and>
         queue s' = (case ev of FetchDeliver i t \<Rightarrow> queue s @ fetchResolved s ! i
                          | _ \<Rightarrow> queue s) \<and>
         qo_processed s' = (case ev of ProcResp i t \<Rightarrow> qo_processed s + 1
                          | _ \<Rightarrow> qo_processed s) \<and>
         notifications s' = (case ev of ProcDeliver t \<Rightarrow>
               (if outcome s = None
                then notifications s @ [\<lparr>at_offset = fo_offset s, queueSize = length (queue s),
                                          at_processed = qo_processed s\<rparr>]
                else notifications s)
                          | _ \<Rightarrow> notifications s) \<and>
         fo_offset s' = fo_offset s"
  proof (cases ev)
    case (FetchResp i r)
    then show ?thesis using assms(2) by (auto simp: onFetchResp_def Let_def split: if_splits)
  next
    case (FetchFail i e)
    then show ?thesis using assms(2) by (auto simp: onFetchFail_def split: if_splits)
  next
    case (FetchDeliver i t)
    then have "s' = onFetchDeliver i t s" using assms(2) by (simp split: if_splits)
    then show ?thesis using assms(1) FetchDeliver
      by (simp add: onFetchDeliver_def Let_def ff)
  next
    case FetchReject
    then show ?thesis using assms(2) by (auto simp: onFetchReject_def split: if_splits)
  next
    case (ProcResp i t)
    then show ?thesis using assms(2) by (auto simp: onProcResp_def Let_def split: if_splits)
  next
    case (ProcFail i e)
    then show ?thesis using assms(2) by (auto simp: onProcFail_def split: if_splits)
  next
    case (ProcDeliver t)
    then have "s' = onProcDeliver t s" using assms(2) by (simp split: if_splits)
    then show ?thesis using assms(1) ProcDeliver
      by (simp add: onProcDeliver_def Let_def ff notify_def)
  next
    case (Tick t)
    then show ?thesis using assms(2) by (auto simp: onTick_def settle_def split: if_splits)
  qed
  with sched show ?thesis by simp
qed

text \<open>
  The theorem at the run of a two-item array with \<open>processingLimit = 2\<close>, after the first
  process has failed, at the completion of the second.
\<close>

theorem no_admission_after_error_witness:
  "failed (err (onProcFail 0 (Reason 1)
      (fetchAndProcess (Items [7, 8]) (default_options\<lparr>qo_processingLimit := 2\<rparr>) 1000
         :: (nat, nat) state))) \<and>
   step (ProcResp 0 1010) (onProcFail 0 (Reason 1)
      (fetchAndProcess (Items [7, 8]) (default_options\<lparr>qo_processingLimit := 2\<rparr>) 1000
         :: (nat, nat) state))
   = Some (onProcResp 0 1010 (onProcFail 0 (Reason 1)
      (fetchAndProcess (Items [7, 8]) (default_options\<lparr>qo_processingLimit := 2\<rparr>) 1000))) \<and>
   procCalls (onProcResp 0 1010 (onProcFail 0 (Reason 1)
      (fetchAndProcess (Items [7, 8]) (default_options\<lparr>qo_processingLimit := 2\<rparr>) 1000
         :: (nat, nat) state))) = [] \<and>
   qo_processed (onProcResp 0 1010 (onProcFail 0 (Reason 1)
      (fetchAndProcess (Items [7, 8]) (default_options\<lparr>qo_processingLimit := 2\<rparr>) 1000
         :: (nat, nat) state))) = 1"
  using no_admission_after_error [of
      "onProcFail 0 (Reason 1)
        (fetchAndProcess (Items [7, 8]) (default_options\<lparr>qo_processingLimit := 2\<rparr>) 1000
           :: (nat, nat) state)"
      "ProcResp 0 1010"
      "onProcResp 0 1010 (onProcFail 0 (Reason 1)
        (fetchAndProcess (Items [7, 8]) (default_options\<lparr>qo_processingLimit := 2\<rparr>) 1000))"
      1010]
  by (simp add: eval_defs)

text \<open>
  Claim C6 as stated fails in its second half: in that run, after the failure is recorded
  with nothing processed and nothing notified, the completion of the other process raises
  the counter of processed items to 1 and its callback emits a notification.
\<close>

theorem completion_after_error_acted_upon:
  "map_option err
     (run [ProcFail 0 (Reason 1)]
        (fetchAndProcess (Items [7, 8]) (default_options\<lparr>qo_processingLimit := 2\<rparr>) 1000
           :: (nat, nat) state)) = Some (Reason 1) \<and>
   map_option qo_processed
     (run [ProcFail 0 (Reason 1)]
        (fetchAndProcess (Items [7, 8]) (default_options\<lparr>qo_processingLimit := 2\<rparr>) 1000
           :: (nat, nat) state)) = Some 0 \<and>
   map_option notifications
     (run [ProcFail 0 (Reason 1)]
        (fetchAndProcess (Items [7, 8]) (default_options\<lparr>qo_processingLimit := 2\<rparr>) 1000
           :: (nat, nat) state)) = Some [] \<and>
   map_option qo_processed
     (run [ProcFail 0 (Reason 1), ProcResp 0 1010, ProcDeliver 1011]
        (fetchAndProcess (Items [7, 8]) (default_options\<lparr>qo_processingLimit := 2\<rparr>) 1000
           :: (nat, nat) state)) = Some 1 \<and>
   map_option notifications
     (run [ProcFail 0 (Reason 1), ProcResp 0 1010, ProcDeliver 1011]
        (fetchAndProcess (Items [7, 8]) (default_options\<lparr>qo_processingLimit := 2\<rparr>) 1000
           :: (nat, nat) state))
     = Some [\<lparr>at_offset = 0, queueSize = 0, at_processed = 1\<rparr>]"
  by (simp add: eval_defs)

section \<open>Failures and the in-flight counters\<close>

text \<open>
  Claim C10. When the fetch capability reports a failure, the callback assigns the error
  slot and nothing else: the call is no longer pending, no resolution or rejection of the
  wrapper promise is queued, and \<open>_requestsConcurrent\<close> keeps the increment of the
  admission. The counter's excess over the operations that can still decrement it grows by
  one there and no later step makes it smaller, so that increment is never taken back. The
  same holds for the process capability and \<open>_processingConcurrent\<close>.
\<close>

theorem failed_operation_leaks_counter:
  assumes "step ev s = Some s'"
  shows "leakedFetches s \<le> leakedFetches s' \<and> leakedProcesses s \<le> leakedProcesses s' \<and>
         (case ev of
            FetchFail i e \<Rightarrow>
              s' = s\<lparr>fetchCalls := drop_nth i (fetchCalls s), err := e\<rparr> \<and>
              leakedFetches s' = leakedFetches s + 1
          | ProcFail i e \<Rightarrow>
              s' = s\<lparr>procCalls := drop_nth i (procCalls s), err := e\<rparr> \<and>
              leakedProcesses s' = leakedProcesses s + 1
          | _ \<Rightarrow> True)"
proof (cases ev)
  case (FetchResp i r)
  then show ?thesis using assms
    by (auto simp: onFetchResp_def Let_def leakedFetches_def leakedProcesses_def length_drop_nth
        split: if_splits)
next
  case (FetchFail i e)
  then show ?thesis using assms
    by (auto simp: onFetchFail_def leakedFetches_def leakedProcesses_def length_drop_nth
        split: if_splits)
next
  case (FetchDeliver i t)
  then have "s' = onFetchDeliver i t s" "i < length (fetchResolved s)"
    using assms by (simp_all split: if_splits)
  then show ?thesis using FetchDeliver
    by (simp add: onFetchDeliver_def Let_def tryFetch_leaked tryProcess_leaked)
      (simp add: leakedFetches_def leakedProcesses_def length_drop_nth)
next
  case FetchReject
  then show ?thesis using assms
    by (auto simp: onFetchReject_def leakedFetches_def leakedProcesses_def split: if_splits)
next
  case (ProcResp i t)
  then show ?thesis using assms
    by (auto simp: onProcResp_def Let_def leakedFetches_def leakedProcesses_def length_drop_nth
        split: if_splits)
next
  case (ProcFail i e)
  then show ?thesis using assms
    by (auto simp: onProcFail_def leakedFetches_def leakedProcesses_def length_drop_nth
        split: if_splits)
next
  case (ProcDeliver t)
  then have "s' = onProcDeliver t s" "0 < procResolved s"
    using assms by (simp_all split: if_splits)
  then show ?thesis using ProcDeliver
    by (simp add: onProcDeliver_def Let_def tryFetch_leaked tryProcess_leaked)
      (simp add: leakedFetches_def leakedProcesses_def notify_def)
next
  case (Tick t)
  then show ?thesis using assms
    by (auto simp: onTick_def settle_def leakedFetches_def leakedProcesses_def split: if_splits)
qed

text \<open>The theorem at a failing first fetch, and at a failing process of a one-item array.\<close>

theorem failed_operation_leaks_counter_witness:
  "step (FetchFail 0 (Reason 1))
     (fetchAndProcess Fetcher default_options 1000 :: (nat, nat) state)
   = Some (onFetchFail 0 (Reason 1) (fetchAndProcess Fetcher default_options 1000)) \<and>
   leakedFetches (fetchAndProcess Fetcher default_options 1000 :: (nat, nat) state) = 0 \<and>
   leakedFetches (onFetchFail 0 (Reason 1)
     (fetchAndProcess Fetcher default_options 1000 :: (nat, nat) state)) = 1 \<and>
   requestsConcurrent (onFetchFail 0 (Reason 1)
     (fetchAndProcess Fetcher default_options 1000 :: (nat, nat) state)) = 1 \<and>
   fetchCalls (onFetchFail 0 (Reason 1)
     (fetchAndProcess Fetcher default_options 1000 :: (nat, nat) state)) = [] \<and>
   step (ProcFail 0 (Reason 1))
     (fetchAndProcess (Items [7]) default_options 1000 :: (nat, nat) state)
   = Some (onProcFail 0 (Reason 1) (fetchAndProcess (Items [7]) default_options 1000)) \<and>
   leakedProcesses (onProcFail 0 (Reason 1)
     (fetchAndProcess (Items [7]) default_options 1000 :: (nat, nat) state)) = 1"
  using failed_operation_leaks_counter [of "FetchFail 0 (Reason 1)"
      "fetchAndProcess Fetcher default_options 1000 :: (nat, nat) state"
      "onFetchFail 0 (Reason 1) (fetchAndProcess Fetcher default_options 1000)"]
    failed_operation_leaks_counter [of "ProcFail 0 (Reason 1)"
      "fetchAndProcess (Items [7]) default_options 1000 :: (nat, nat) state"
      "onProcFail 0 (Reason 1) (fetchAndProcess (Items [7]) default_options 1000)"]
  by (simp add: eval_defs leakedFetches_def leakedProcesses_def)

section \<open>The processed count and the total\<close>

lemma run_invariant:
  assumes "\<And>ev u u'. P ev \<Longrightarrow> Q u \<Longrightarrow> step ev u = Some u' \<Longrightarrow> Q u'"
  shows "list_all P evs \<Longrightarrow> Q s \<Longrightarrow> run evs s = Some s' \<Longrightarrow> Q s'"
proof (induction evs arbitrary: s)
  case Nil
  then show ?case by simp
next
  case (Cons ev evs)
  from Cons.prems(3) obtain u where u: "step ev s = Some u" "run evs u = Some s'"
    by (auto split: option.splits)
  from Cons.prems(1) have "P ev" "list_all P evs" by simp_all
  with assms Cons.prems(2) u(1) have "Q u" by blast
  with Cons.IH \<open>list_all P evs\<close> u(2) show ?case by blast
qed

lemma tryProcess_arrayInv: "arrayInv n s \<Longrightarrow> arrayInv n (tryProcess now s)"
proof (rule tryProcess_preserves [where Q = "arrayInv n"])
  fix u :: "('a, 'e) state"
  assume "arrayInv n u" "\<not> procBlocked u"
  then show "arrayInv n (issueProcess u)"
    by (cases "queue u") (simp_all add: arrayInv_def issueProcess_def procBlocked_def)
qed (simp_all add: arrayInv_def)

lemma step_arrayInv:
  assumes "arrayInv n s" and "step ev s = Some s'"
  shows "arrayInv n s'"
proof (cases ev)
  case (FetchResp i r)
  then show ?thesis using assms by (simp add: arrayInv_def)
next
  case (FetchFail i e)
  then show ?thesis using assms by (simp add: arrayInv_def)
next
  case (FetchDeliver i t)
  then show ?thesis using assms by (simp add: arrayInv_def)
next
  case FetchReject
  then show ?thesis using assms by (simp add: arrayInv_def)
next
  case (ProcResp i t)
  then have "s' = onProcResp i t s" "i < length (procCalls s)"
    using assms(2) by (simp_all split: if_splits)
  then show ?thesis using assms(1)
    by (simp add: arrayInv_def onProcResp_def Let_def length_drop_nth)
next
  case (ProcFail i e)
  then have "s' = onProcFail i e s" "i < length (procCalls s)"
    using assms(2) by (simp_all split: if_splits)
  then show ?thesis using assms(1)
    by (simp add: arrayInv_def onProcFail_def length_drop_nth)
next
  case (ProcDeliver t)
  let ?s2 = "notify \<lparr>at_offset = fo_offset s, queueSize = length (queue s),
                      at_processed = qo_processed s\<rparr>
               (s\<lparr>procResolved := procResolved s - 1,
                  processingConcurrent := processingConcurrent s - 1\<rparr>)"
  have "arrayInv n ?s2" using assms(1) by (simp add: arrayInv_def notify_def)
  then have "arrayInv n (tryProcess t ?s2)" by (rule tryProcess_arrayInv)
  moreover have "\<not> isFunction (tryProcess t ?s2)"
    using assms(1) by (simp add: arrayInv_def notify_def)
  moreover have "s' = onProcDeliver t s" using ProcDeliver assms(2) by (simp split: if_splits)
  ultimately show ?thesis by (simp add: onProcDeliver_def Let_def)
next
  case (Tick t)
  then show ?thesis using assms
    by (auto simp: arrayInv_def onTick_def settle_def split: if_splits)
qed

lemma fetchAndProcess_Items:
  "xs \<noteq> [] \<Longrightarrow>
   fetchAndProcess (Items xs) opts now = tryProcess now ((start (Items xs) opts now)\<lparr>queue := xs\<rparr>)"
  by (simp add: fetchAndProcess_def)















section \<open>Runs on an array: draining the queue\<close>

lemma tryProcess_arrayMode: "arrayMode n s \<Longrightarrow> arrayMode n (tryProcess now s)"
  by (rule tryProcess_preserves [where Q = "arrayMode n"])
    (simp_all add: arrayMode_def issueProcess_def)

lemma step_arrayMode:
  assumes "arrayMode n s" and "step ev s = Some s'"
  shows "arrayMode n s'"
proof (cases ev)
  case (FetchResp i r)
  then show ?thesis using assms by (simp add: arrayMode_def)
next
  case (FetchFail i e)
  then show ?thesis using assms by (simp add: arrayMode_def)
next
  case (FetchDeliver i t)
  then show ?thesis using assms by (simp add: arrayMode_def)
next
  case FetchReject
  then show ?thesis using assms by (simp add: arrayMode_def)
next
  case (ProcResp i t)
  then have "s' = onProcResp i t s" using assms(2) by (simp split: if_splits)
  then show ?thesis using assms(1) by (simp add: arrayMode_def onProcResp_def Let_def)
next
  case (ProcFail i e)
  then have "s' = onProcFail i e s" using assms(2) by (simp split: if_splits)
  then show ?thesis using assms(1) by (simp add: arrayMode_def onProcFail_def)
next
  case (ProcDeliver t)
  let ?s2 = "notify \<lparr>at_offset = fo_offset s, queueSize = length (queue s),
                      at_processed = qo_processed s\<rparr>
               (s\<lparr>procResolved := procResolved s - 1,
                  processingConcurrent := processingConcurrent s - 1\<rparr>)"
  have "arrayMode n ?s2" using assms(1) by (simp add: arrayMode_def notify_def)
  then have "arrayMode n (tryProcess t ?s2)" by (rule tryProcess_arrayMode)
  moreover have "\<not> isFunction (tryProcess t ?s2)"
    using assms(1) by (simp add: arrayMode_def notify_def)
  moreover have "s' = onProcDeliver t s" using ProcDeliver assms(2) by (simp split: if_splits)
  ultimately show ?thesis by (simp add: onProcDeliver_def Let_def)
next
  case (Tick t)
  then show ?thesis using assms
    by (auto simp: arrayMode_def onTick_def settle_def split: if_splits)
qed

lemma start_arrayMode:
  assumes "xs \<noteq> []"
  shows "arrayMode (int (length xs)) (fetchAndProcess (Items xs) opts now :: ('a, 'e) state)"
proof -
  have "arrayMode (int (length xs))
          ((start (Items xs) opts now :: ('a, 'e) state)\<lparr>queue := xs\<rparr>)"
    by (simp add: start_def arrayMode_def)
  then show ?thesis using assms
    by (simp add: fetchAndProcess_Items tryProcess_arrayMode)
qed

lemma paged_target:
  fixes n p l :: int
  assumes "0 < n" "0 < p" "p \<le> n" "n * l = p"
  shows "p = n"
proof -
  have "0 < l"
  proof (rule ccontr)
    assume "\<not> 0 < l"
    then have "n * l \<le> 0" using assms(1) by (simp add: mult_nonneg_nonpos)
    then show False using assms(2,4) by simp
  qed
  then have "n * 1 \<le> n * l" using assms(1) by (intro mult_left_mono) simp_all
  then show ?thesis using assms(3,4) by simp
qed

lemma onProcResp_fields [simp]:
  "procCalls (onProcResp i t s) = drop_nth i (procCalls s)"
  "qo_processed (onProcResp i t s) = qo_processed s + 1"
  "procResolved (onProcResp i t s) = Suc (procResolved s)"
  "queue (onProcResp i t s) = queue s"
  "processingConcurrent (onProcResp i t s) = processingConcurrent s"
  "qo_processingLimit (onProcResp i t s) = qo_processingLimit s"
  "err (onProcResp i t s) = err s"
  "fo_total (onProcResp i t s) = fo_total s"
  "fo_maxLimit (onProcResp i t s) = fo_maxLimit s"
  "isFunction (onProcResp i t s) = isFunction s"
  "fetchCalls (onProcResp i t s) = fetchCalls s"
  "fetchResolved (onProcResp i t s) = fetchResolved s"
  "fetchRejected (onProcResp i t s) = fetchRejected s"
  "outcome (onProcResp i t s) = outcome s"
  by (simp_all add: onProcResp_def Let_def)

lemma tryProcess_doneInv: "doneInv n s \<Longrightarrow> doneInv n (tryProcess now s)"
proof (rule tryProcess_preserves [where Q = "doneInv n"])
  fix u :: "('a, 'e) state"
  assume "doneInv n u" "finished u"
  then show "doneInv n (u\<lparr>timeEnd := Some now\<rparr>)"
    by (simp add: doneInv_def arrayInv_def finished_def num_def)
next
  fix u :: "('a, 'e) state"
  assume "doneInv n u" "\<not> procBlocked u"
  then show "doneInv n (issueProcess u)"
    by (cases "queue u") (auto simp: doneInv_def arrayInv_def issueProcess_def procBlocked_def)
qed simp_all

lemma step_doneInv:
  assumes "doneInv n s" and "step ev s = Some s'"
  shows "doneInv n s'"
proof (cases ev)
  case (FetchResp i r)
  then show ?thesis using assms by (simp add: doneInv_def arrayInv_def)
next
  case (FetchFail i e)
  then show ?thesis using assms by (simp add: doneInv_def arrayInv_def)
next
  case (FetchDeliver i t)
  then show ?thesis using assms by (simp add: doneInv_def arrayInv_def)
next
  case FetchReject
  then show ?thesis using assms by (simp add: doneInv_def arrayInv_def)
next
  case (ProcResp i t)
  then have s': "s' = onProcResp i t s" and i: "i < length (procCalls s)"
    using assms(2) by (simp_all split: if_splits)
  have a: "arrayInv n s'" using assms step_arrayInv by (auto simp: doneInv_def)
  have n: "0 < n" and p: "0 \<le> qo_processed s"
    and m: "num (fo_maxLimit s) \<le> 0 \<or> n \<le> num (fo_maxLimit s)"
    and tot: "fo_total s = Some n"
    and cnt: "qo_processed s + int (length (procCalls s)) + int (length (queue s)) \<le> n"
    and o: "(case outcome s of Some (Done f p t) \<Rightarrow> f = Some n \<and> p = n
             | Some ResolvedEmpty \<Rightarrow> False | _ \<Rightarrow> True)"
    using assms(1) by (simp_all add: doneInv_def arrayInv_def)
  have old: "timeEnd s = None" using assms(1) i cnt by (auto simp: doneInv_def)
  have le: "qo_processed s + 1 \<le> n" using i cnt by simp
  have pg: "n * fo_limit s = qo_processed s + 1 \<Longrightarrow> qo_processed s + 1 = n"
    using paged_target [of n "qo_processed s + 1" "fo_limit s"] n p le by simp
  have mx: "qo_processed s + 1 = num (fo_maxLimit s) \<Longrightarrow> qo_processed s + 1 = n"
    using m p le by auto
  have "timeEnd s' = None \<or> qo_processed s' = n"
    using s' old tot mx pg by (auto simp: onProcResp_def Let_def num_def)
  then show ?thesis using a n p m o s' by (simp add: doneInv_def)
next
  case (ProcFail i e)
  then have "s' = onProcFail i e s" "i < length (procCalls s)"
    using assms(2) by (simp_all split: if_splits)
  then show ?thesis using assms(1)
    by (auto simp: doneInv_def arrayInv_def onProcFail_def length_drop_nth)
next
  case (ProcDeliver t)
  let ?s2 = "notify \<lparr>at_offset = fo_offset s, queueSize = length (queue s),
                      at_processed = qo_processed s\<rparr>
               (s\<lparr>procResolved := procResolved s - 1,
                  processingConcurrent := processingConcurrent s - 1\<rparr>)"
  have "doneInv n ?s2" using assms(1) by (simp add: doneInv_def arrayInv_def notify_def)
  then have "doneInv n (tryProcess t ?s2)" by (rule tryProcess_doneInv)
  moreover have "\<not> isFunction (tryProcess t ?s2)"
    using assms(1) by (simp add: doneInv_def arrayInv_def notify_def)
  moreover have "s' = onProcDeliver t s" using ProcDeliver assms(2) by (simp split: if_splits)
  ultimately show ?thesis by (simp add: onProcDeliver_def Let_def)
next
  case (Tick t)
  then have s': "s' = onTick t s" using assms(2) by (simp split: if_splits)
  have "timeEnd s \<noteq> None \<Longrightarrow> qo_processed s = n" "fo_total s = Some n"
    using assms(1) by (auto simp: doneInv_def arrayInv_def)
  then show ?thesis using assms(1) s'
    by (auto simp: doneInv_def arrayInv_def onTick_def settle_def truthy_def
        split: option.splits outcome.splits)
qed

lemma start_doneInv:
  assumes "xs \<noteq> []"
    and "num (fo_maxLimit opts) \<le> 0 \<or> int (length xs) \<le> num (fo_maxLimit opts)"
    and "qo_processed opts = 0"
  shows "doneInv (int (length xs)) (fetchAndProcess (Items xs) opts now :: ('a, 'e) state)"
proof -
  have "doneInv (int (length xs))
          ((start (Items xs) opts now :: ('a, 'e) state)\<lparr>queue := xs\<rparr>)"
    using assms by (simp add: start_def arrayInv_def doneInv_def)
  then show ?thesis using assms(1)
    by (simp add: fetchAndProcess_Items tryProcess_doneInv)
qed

lemma tryProcess_drainBase: "drainBase n s \<Longrightarrow> drainBase n (tryProcess now s)"
proof (rule tryProcess_preserves [where Q = "drainBase n"])
  fix u :: "('a, 'e) state"
  assume "drainBase n u" "\<not> procBlocked u"
  then show "drainBase n (issueProcess u)"
    by (cases "queue u") (simp_all add: drainBase_def arrayInv_def issueProcess_def procBlocked_def)
qed (simp_all add: drainBase_def arrayInv_def)

lemma tryProcess_saturates:
  "drainBase n s \<Longrightarrow>
   (queue (tryProcess now s) = [] \<or>
      qo_processingLimit s \<le> processingConcurrent (tryProcess now s)) \<and>
   (qo_processed s \<noteq> n \<or> timeEnd (tryProcess now s) \<noteq> None)"
proof (induction now s rule: tryProcess.induct)
  case (1 now s)
  have tot: "fo_total s = Some n" "n \<noteq> 0" "\<not> failed (err s)"
    and cnt: "qo_processed s + int (length (procCalls s)) + int (length (queue s)) = n"
    using "1.prems" by (simp_all add: drainBase_def arrayInv_def failed_def)
  show ?case
  proof (cases "finished s")
    case True
    then have "qo_processed s = n" using tot by (simp add: finished_def num_def)
    then have "queue s = []" using cnt by (cases "queue s") auto
    then show ?thesis using True by (simp add: tryProcess_finished)
  next
    case nf: False
    then have pn: "qo_processed s \<noteq> n" using tot by (simp add: finished_def num_def truthy_def)
    show ?thesis
    proof (cases "procBlocked s")
      case True
      then show ?thesis using nf pn tot by (auto simp: tryProcess_blocked procBlocked_def)
    next
      case False
      have b: "drainBase n (issueProcess s)"
        using "1.prems" False
        by (cases "queue s")
          (simp_all add: drainBase_def arrayInv_def issueProcess_def procBlocked_def)
      have "(queue (tryProcess now (issueProcess s)) = [] \<or>
              qo_processingLimit (issueProcess s)
                \<le> processingConcurrent (tryProcess now (issueProcess s))) \<and>
            (qo_processed (issueProcess s) \<noteq> n \<or>
              timeEnd (tryProcess now (issueProcess s)) \<noteq> None)"
        unfolding issueProcess_def
        by (rule "1.IH")
          (use nf False b in \<open>auto simp: finished_def procBlocked_def issueProcess_def\<close>)
      then show ?thesis using nf False pn
        by (simp add: tryProcess_issue) (simp add: issueProcess_def)
    qed
  qed
qed

lemma tryProcess_drainInv: "drainBase n s \<Longrightarrow> drainInv n (tryProcess now s)"
  using tryProcess_drainBase [of n s now] tryProcess_saturates [of n s now]
  by (auto simp: drainInv_def)

lemma step_drainInv:
  assumes "drainInv n s" and "step ev s = Some s'" and "unfailing ev"
  shows "drainInv n s'"
proof (cases ev)
  case (FetchResp i r)
  then show ?thesis using assms by (simp add: drainInv_def drainBase_def arrayInv_def)
next
  case (FetchFail i e)
  then show ?thesis using assms by (simp add: unfailing_def)
next
  case (FetchDeliver i t)
  then show ?thesis using assms by (simp add: drainInv_def drainBase_def arrayInv_def)
next
  case FetchReject
  then show ?thesis using assms by (simp add: drainInv_def drainBase_def arrayInv_def)
next
  case (ProcResp i t)
  then have "s' = onProcResp i t s" "i < length (procCalls s)"
    using assms(2) by (simp_all split: if_splits)
  then show ?thesis using assms(1)
    by (auto simp: drainInv_def drainBase_def arrayInv_def length_drop_nth)
next
  case (ProcFail i e)
  then show ?thesis using assms by (simp add: unfailing_def)
next
  case (ProcDeliver t)
  let ?s2 = "notify \<lparr>at_offset = fo_offset s, queueSize = length (queue s),
                      at_processed = qo_processed s\<rparr>
               (s\<lparr>procResolved := procResolved s - 1,
                  processingConcurrent := processingConcurrent s - 1\<rparr>)"
  have "0 < procResolved s" using ProcDeliver assms(2) by (simp split: if_splits)
  then have "drainBase n ?s2"
    using assms(1) by (simp add: drainInv_def drainBase_def arrayInv_def notify_def)
  then have "drainInv n (tryProcess t ?s2)" by (rule tryProcess_drainInv)
  moreover have "\<not> isFunction (tryProcess t ?s2)"
    using assms(1) by (simp add: drainInv_def drainBase_def arrayInv_def notify_def)
  moreover have "s' = onProcDeliver t s" using ProcDeliver assms(2) by (simp split: if_splits)
  ultimately show ?thesis by (simp add: onProcDeliver_def Let_def)
next
  case (Tick t)
  then show ?thesis using assms
    by (auto simp: drainInv_def drainBase_def arrayInv_def onTick_def settle_def split: if_splits)
qed

lemma start_drainInv:
  assumes "xs \<noteq> []" and "qo_processed opts = 0"
  shows "drainInv (int (length xs)) (fetchAndProcess (Items xs) opts now :: ('a, 'e) state)"
proof -
  have "drainBase (int (length xs))
          ((start (Items xs) opts now :: ('a, 'e) state)\<lparr>queue := xs\<rparr>)"
    using assms by (simp add: start_def arrayInv_def drainBase_def)
  then show ?thesis using assms(1)
    by (simp add: fetchAndProcess_Items tryProcess_drainInv)
qed

lemma tryProcess_backlog:
  "procCalls (tryProcess now s) @ queue (tryProcess now s) = procCalls s @ queue s"
proof (rule tryProcess_preserves [where Q = "\<lambda>u. procCalls u @ queue u = procCalls s @ queue s"])
  fix u :: "('a, 'e) state"
  assume "procCalls u @ queue u = procCalls s @ queue s" "\<not> procBlocked u"
  then show "procCalls (issueProcess u) @ queue (issueProcess u) = procCalls s @ queue s"
    by (cases "queue u") (simp_all add: issueProcess_def procBlocked_def)
qed simp_all

lemma qo_processingLimit_step:
  "step ev s = Some s' \<Longrightarrow> qo_processingLimit s' = qo_processingLimit s"
  by (cases ev)
    (auto simp: onFetchResp_def onFetchFail_def onFetchDeliver_def onFetchReject_def
      onProcResp_def onProcFail_def onProcDeliver_def onTick_def settle_def notify_def Let_def
      split: if_splits)

text \<open>
  Claim C9, as amended. For a non-empty array of \<open>N\<close> items and any options:
  \<open>fetchAndProcess\<close> returns with \<open>total = N\<close> and with the whole array, in order, handed
  to the process capability or waiting in the queue, and in every state of the run
  \<open>total\<close> is \<open>N\<close> and no fetch has been issued. When the counter of processed items starts
  at 0 and \<open>maxLimit\<close> is unset, below 1, or at least \<open>N\<close>, a promise that is resolved is
  resolved with \<open>{ status: "done", fetched: N, processed: N }\<close>. When the counter starts at
  0, \<open>processingLimit\<close> is at least 1 and no process fails, then once no process is in
  flight all \<open>N\<close> items are processed and the end timestamp is set, and a tick of the
  interval that finds the promise pending and the timestamp truthy resolves the promise
  with that record.
\<close>

theorem array_run_drains:
  fixes s :: "('a, 'e) state"
  assumes "xs \<noteq> []"
    and "run evs (fetchAndProcess (Items xs) opts now) = Some s"
  shows "fo_total (fetchAndProcess (Items xs) opts now :: ('a, 'e) state)
           = Some (int (length xs)) \<and>
         procCalls (fetchAndProcess (Items xs) opts now :: ('a, 'e) state) @
           queue (fetchAndProcess (Items xs) opts now :: ('a, 'e) state) = xs \<and>
         fo_total s = Some (int (length xs)) \<and>
         fetchCalls s = [] \<and> fetchResolved s = [] \<and> fetchRejected s = 0 \<and>
         requestsConcurrent s = 0 \<and> outcome s \<noteq> Some ResolvedEmpty \<and>
         (qo_processed opts = 0 \<and>
          (num (fo_maxLimit opts) \<le> 0 \<or> int (length xs) \<le> num (fo_maxLimit opts)) \<longrightarrow>
            (case outcome s of
               Some (Done f p t) \<Rightarrow> f = Some (int (length xs)) \<and> p = int (length xs)
             | _ \<Rightarrow> True)) \<and>
         (qo_processed opts = 0 \<and> 1 \<le> qo_processingLimit opts \<and> list_all unfailing evs \<and>
          procCalls s = [] \<and> procResolved s = 0 \<longrightarrow>
            qo_processed s = int (length xs) \<and> timeEnd s \<noteq> None \<and>
            (truthy (timeEnd s) \<and> outcome s = None \<longrightarrow>
               outcome (onTick t s) =
                 Some (Done (Some (int (length xs))) (int (length xs))
                         (real_of_int (num (timeEnd s) - timeStart s) / 1000))))"
proof -
  let ?s0 = "fetchAndProcess (Items xs) opts now :: ('a, 'e) state"
  let ?n = "int (length xs)"
  have all: "list_all (\<lambda>ev. True) evs" by (simp add: list_all_iff)
  have m0: "arrayMode ?n ?s0" using assms(1) by (rule start_arrayMode)
  from run_invariant [where P = "\<lambda>ev. True" and Q = "arrayMode ?n", OF _ all m0 assms(2)]
  have m: "arrayMode ?n s" using step_arrayMode by blast
  have init: "fo_total ?s0 = Some ?n \<and> procCalls ?s0 @ queue ?s0 = xs"
    using m0 assms(1)
    by (simp add: arrayMode_def)
      (simp add: fetchAndProcess_Items tryProcess_backlog start_def)
  have mode: "fo_total s = Some ?n \<and> fetchCalls s = [] \<and> fetchResolved s = [] \<and>
      fetchRejected s = 0 \<and> requestsConcurrent s = 0 \<and> outcome s \<noteq> Some ResolvedEmpty"
    using m by (simp add: arrayMode_def)
  have safe: "(case outcome s of
               Some (Done f p t) \<Rightarrow> f = Some ?n \<and> p = ?n
             | _ \<Rightarrow> True)"
    if q: "qo_processed opts = 0"
      "num (fo_maxLimit opts) \<le> 0 \<or> ?n \<le> num (fo_maxLimit opts)"
  proof -
    have d0: "doneInv ?n ?s0" using assms(1) q(2,1) by (rule start_doneInv)
    from run_invariant [where P = "\<lambda>ev. True" and Q = "doneInv ?n", OF _ all d0 assms(2)]
    have "doneInv ?n s" using step_doneInv by blast
    then show ?thesis by (auto simp: doneInv_def split: option.splits outcome.splits)
  qed
  have live: "qo_processed s = ?n \<and> timeEnd s \<noteq> None \<and>
            (truthy (timeEnd s) \<and> outcome s = None \<longrightarrow>
               outcome (onTick t s) =
                 Some (Done (Some ?n) ?n (real_of_int (num (timeEnd s) - timeStart s) / 1000)))"
    if q: "qo_processed opts = 0" "1 \<le> qo_processingLimit opts" "list_all unfailing evs"
      "procCalls s = []" "procResolved s = 0"
  proof -
    have i0: "drainInv ?n ?s0" using assms(1) q(1) by (rule start_drainInv)
    from run_invariant [where P = unfailing and Q = "drainInv ?n", OF _ q(3) i0 assms(2)]
    have i: "drainInv ?n s" using step_drainInv by blast
    have "qo_processingLimit ?s0 = qo_processingLimit opts"
      using assms(1) by (simp add: fetchAndProcess_Items start_def)
    moreover have "qo_processingLimit s = qo_processingLimit ?s0"
      by (rule run_invariant [where P = "\<lambda>ev. True"
            and Q = "\<lambda>u. qo_processingLimit u = qo_processingLimit ?s0",
            OF _ all _ assms(2)])
        (simp_all add: qo_processingLimit_step)
    ultimately have lim: "1 \<le> qo_processingLimit s" using q(2) by simp
    have e: "queue s = []" using i q(4,5) lim by (auto simp: drainInv_def drainBase_def)
    then have p: "qo_processed s = ?n" using i q(4) by (simp add: drainInv_def drainBase_def)
    then have te: "timeEnd s \<noteq> None" using i q(5) by (simp add: drainInv_def)
    have "err s = Falsy" "fo_total s = Some ?n"
      using i by (simp_all add: drainInv_def drainBase_def arrayInv_def)
    then have "outcome (onTick t s) =
                 Some (Done (Some ?n) ?n (real_of_int (num (timeEnd s) - timeStart s) / 1000))"
      if "truthy (timeEnd s)" "outcome s = None"
      using that p by (simp add: onTick_def settle_def failed_def)
    with p te show ?thesis by simp
  qed
  from init mode safe live show ?thesis by blast
qed

text \<open>The theorem at the complete run of a two-item array with the default options.\<close>

theorem array_run_drains_witness:
  "[7 :: nat, 8] \<noteq> [] \<and>
   run [ProcResp 0 1010, ProcDeliver 1012, ProcResp 0 1020, ProcDeliver 1022]
     (fetchAndProcess (Items [7, 8]) default_options 1000 :: (nat, nat) state)
   = Some (onProcDeliver 1022 (onProcResp 0 1020 (onProcDeliver 1012 (onProcResp 0 1010
        (fetchAndProcess (Items [7, 8]) default_options 1000))))) \<and>
   qo_processed default_options = 0 \<and> num (fo_maxLimit default_options) \<le> 0 \<and>
   1 \<le> qo_processingLimit default_options \<and>
   list_all unfailing
     [ProcResp 0 1010, ProcDeliver 1012, ProcResp 0 1020, ProcDeliver 1022 :: (nat, nat) event] \<and>
   procCalls (onProcDeliver 1022 (onProcResp 0 1020 (onProcDeliver 1012 (onProcResp 0 1010
        (fetchAndProcess (Items [7, 8]) default_options 1000 :: (nat, nat) state))))) = [] \<and>
   procResolved (onProcDeliver 1022 (onProcResp 0 1020 (onProcDeliver 1012 (onProcResp 0 1010
        (fetchAndProcess (Items [7, 8]) default_options 1000 :: (nat, nat) state))))) = 0 \<and>
   truthy (timeEnd (onProcDeliver 1022 (onProcResp 0 1020 (onProcDeliver 1012
        (onProcResp 0 1010
        (fetchAndProcess (Items [7, 8]) default_options 1000 :: (nat, nat) state)))))) \<and>
   outcome (onProcDeliver 1022 (onProcResp 0 1020 (onProcDeliver 1012 (onProcResp 0 1010
        (fetchAndProcess (Items [7, 8]) default_options 1000 :: (nat, nat) state))))) = None \<and>
   fo_total (onProcDeliver 1022 (onProcResp 0 1020 (onProcDeliver 1012 (onProcResp 0 1010
        (fetchAndProcess (Items [7, 8]) default_options 1000 :: (nat, nat) state)))))
     = Some 2 \<and>
   qo_processed (onProcDeliver 1022 (onProcResp 0 1020 (onProcDeliver 1012 (onProcResp 0 1010
        (fetchAndProcess (Items [7, 8]) default_options 1000 :: (nat, nat) state))))) = 2 \<and>
   outcome (onTick 2000 (onProcDeliver 1022 (onProcResp 0 1020 (onProcDeliver 1012
        (onProcResp 0 1010
        (fetchAndProcess (Items [7, 8]) default_options 1000 :: (nat, nat) state))))))
     = Some (Done (Some 2) 2 (22 / 1000))"
  using array_run_drains [of "[7 :: nat, 8]"
      "[ProcResp 0 1010, ProcDeliver 1012, ProcResp 0 1020, ProcDeliver 1022]"
      default_options 1000
      "onProcDeliver 1022 (onProcResp 0 1020 (onProcDeliver 1012 (onProcResp 0 1010
        (fetchAndProcess (Items [7, 8]) default_options 1000 :: (nat, nat) state))))" 2000]
  by (simp add: eval_defs unfailing_def)

text \<open>
  Claim C9 as stated fails when \<open>maxLimit\<close> is set: for the array \<open>[7, 8]\<close> and
  \<open>maxLimit = 1\<close> the completion of the first item sets the end timestamp (line 197); the
  second item is handed to the process capability, and a tick of the interval before it
  completes resolves the promise with \<open>processed: 1\<close>.
\<close>

theorem array_run_stopped_by_maxLimit:
  "map_option outcome
     (run [ProcResp 0 1500, ProcDeliver 1501, Tick 2000]
        (fetchAndProcess (Items [7, 8]) (default_options\<lparr>fo_maxLimit := Some 1\<rparr>) 1000
           :: (nat, nat) state))
   = Some (Some (Done (Some 2) 1 (500 / 1000)))"
  by (simp add: eval_defs)

section \<open>Completion in paged mode\<close>

text \<open>
  What \<open>process\<close> and the interval callback do by themselves: the completion of a process
  sets the end timestamp exactly when the new count is the target of lines 195 to 197, and
  a tick that finds the timestamp set and no error resolves the pending promise with the
  record of line 99.
\<close>

lemma onProcResp_timeEnd_target:
  "timeEnd (onProcResp i now s) =
     (if (\<not> fo_paged s \<and> num (fo_total s) = qo_processed s + 1) \<or>
         (fo_paged s \<and> num (fo_total s) * fo_limit s = qo_processed s + 1) \<or>
         (truthy (fo_maxLimit s) \<and> qo_processed s + 1 = num (fo_maxLimit s))
      then Some now else timeEnd s)"
  by (auto simp: onProcResp_def Let_def)

lemma onTick_done:
  "\<not> failed (err s) \<Longrightarrow> truthy (timeEnd s) \<Longrightarrow> outcome s = None \<Longrightarrow>
   outcome (onTick t s) =
     Some (Done (fo_total s) (qo_processed s)
             (real_of_int (num (timeEnd s) - timeStart s) / 1000))"
  by (simp add: onTick_def settle_def)

text \<open>
  Claim C1 says that in paged mode the run is complete exactly when the processed count is
  \<open>total * limit\<close>, which is what line 196 tests. Lines 109 and 139 test \<open>processed == total\<close>
  whatever the mode. In paged mode with pages of 2 items and a source that reports 2 pages,
  the second item's completion leaves the end timestamp unset (2 is not 4); the callback
  that follows calls \<open>tryProcess\<close>, which sets it because the count equals \<open>total\<close>; the
  interval then resolves the promise with \<open>processed: 2\<close> while the fetch of the second
  page is still pending.
\<close>

theorem paged_run_done_at_total:
  "map_option timeEnd
     (run [FetchResp 0 \<lparr>resp_total = 2, items = [1, 2]\<rparr>, FetchDeliver 0 1100,
           ProcResp 0 1200, ProcDeliver 1201, ProcResp 0 1300]
        (fetchAndProcess Fetcher (default_options\<lparr>fo_paged := True, fo_limit := 2\<rparr>) 1000
           :: (nat, nat) state)) = Some None \<and>
   map_option qo_processed
     (run [FetchResp 0 \<lparr>resp_total = 2, items = [1, 2]\<rparr>, FetchDeliver 0 1100,
           ProcResp 0 1200, ProcDeliver 1201, ProcResp 0 1300]
        (fetchAndProcess Fetcher (default_options\<lparr>fo_paged := True, fo_limit := 2\<rparr>) 1000
           :: (nat, nat) state)) = Some 2 \<and>
   map_option timeEnd
     (run [FetchResp 0 \<lparr>resp_total = 2, items = [1, 2]\<rparr>, FetchDeliver 0 1100,
           ProcResp 0 1200, ProcDeliver 1201, ProcResp 0 1300, ProcDeliver 1301]
        (fetchAndProcess Fetcher (default_options\<lparr>fo_paged := True, fo_limit := 2\<rparr>) 1000
           :: (nat, nat) state)) = Some (Some 1301) \<and>
   map_option fetchCalls
     (run [FetchResp 0 \<lparr>resp_total = 2, items = [1, 2]\<rparr>, FetchDeliver 0 1100,
           ProcResp 0 1200, ProcDeliver 1201, ProcResp 0 1300, ProcDeliver 1301, Tick 2000]
        (fetchAndProcess Fetcher (default_options\<lparr>fo_paged := True, fo_limit := 2\<rparr>) 1000
           :: (nat, nat) state)) = Some [(2, 1)] \<and>
   map_option outcome
     (run [FetchResp 0 \<lparr>resp_total = 2, items = [1, 2]\<rparr>, FetchDeliver 0 1100,
           ProcResp 0 1200, ProcDeliver 1201, ProcResp 0 1300, ProcDeliver 1301, Tick 2000]
        (fetchAndProcess Fetcher (default_options\<lparr>fo_paged := True, fo_limit := 2\<rparr>) 1000
           :: (nat, nat) state)) = Some (Some (Done (Some 2) 2 (301 / 1000)))"
  by (simp add: eval_defs)

end
